theory Spec2Isabelle
  imports Main "HOL-Library.Sublist" "HOL-Library.Char_ord" "HOL-Library.List_Lexorder"
begin

section \<open>Strings\<close>

text \<open>
  A JavaScript string is a sequence of UTF-16 code units. The model holds the strings
  whose code units are below 256, one \<^typ>\<open>char\<close> for each code unit, so that a
  \<^typ>\<open>char\<close> is a character of Latin-1. On these, \<open>toLowerCase\<close> adds 32 to the
  letters \<open>A\<close>..\<open>Z\<close> and to the letters from U+00C0 to U+00DE other than the
  multiplication sign U+00D7, and leaves every other character alone; the regular
  expression class \<open>\s\<close> holds tab, line feed, vertical tab, form feed, carriage
  return, space and the no-break space U+00A0.
\<close>

definition toLowerCase_char :: "char \<Rightarrow> char" where
  "toLowerCase_char c =
     (let n = (of_char c :: nat)
      in if (65 \<le> n \<and> n \<le> 90) \<or> (192 \<le> n \<and> n \<le> 222 \<and> n \<noteq> 215)
         then char_of (n + 32) else c)"

definition toLowerCase :: "string \<Rightarrow> string" where
  "toLowerCase s = map toLowerCase_char s"

definition is_space :: "char \<Rightarrow> bool" where
  "is_space c = (let n = (of_char c :: nat) in (9 \<le> n \<and> n \<le> 13) \<or> n = 32 \<or> n = 160)"

text \<open>\<open>s.replace(/\s+/g, '_')\<close>: every maximal run of whitespace becomes one underscore.\<close>

function replace_ws_runs :: "string \<Rightarrow> string" where
  "replace_ws_runs [] = []"
| "replace_ws_runs (c # s) =
     (if is_space c then CHR ''_'' # replace_ws_runs (dropWhile is_space s)
      else c # replace_ws_runs s)"
  by pat_completeness auto
termination
  by (relation "measure length") (auto simp: le_imp_less_Suc length_dropWhile_le)

text \<open>\<open>s.includes(q)\<close>: \<open>q\<close> occurs in \<open>s\<close> as a contiguous substring.\<close>

fun str_includes :: "string \<Rightarrow> string \<Rightarrow> bool" where
  "str_includes [] q = (q = [])"
| "str_includes (c # s) q = (prefix q (c # s) \<or> str_includes s q)"

section \<open>Activity log: the filter engine\<close>

text \<open>
  Modelled from the spec: the module that declares the activity data and its types is
  not among the sources. An activity entry has a description and a category, the two
  fields the filter reads; a group has a date, which the filter reads as a string
  handed to \<open>new Date\<close>, and its items in order. The object spread
  \<open>{...group, items: \<dots>}\<close> is the record update of \<open>items\<close>, which keeps every
  other field.
\<close>

record ActivityItem =
  category :: string
  description :: string

record ActivityGroup =
  date :: string
  items :: "ActivityItem list"

text \<open>
  A \<open>Date\<close> object is its \<open>getTime()\<close>: \<open>Some\<close> of the milliseconds, or \<open>None\<close> for
  an invalid date, whose time is \<open>NaN\<close>. Every comparison with \<open>NaN\<close> is false.
  A \<open>DateRange\<close> has two optional ends.
\<close>

type_synonym jstime = "int option"

record DateRange =
  range_from :: "jstime option"
  range_to :: "jstime option"

fun num_ge :: "jstime \<Rightarrow> jstime \<Rightarrow> bool" where
  "num_ge (Some a) (Some b) = (a \<ge> b)"
| "num_ge _ _ = False"

fun num_le :: "jstime \<Rightarrow> jstime \<Rightarrow> bool" where
  "num_le (Some a) (Some b) = (a \<le> b)"
| "num_le _ _ = False"

definition transformCategory :: "string \<Rightarrow> string" where
  "transformCategory s = replace_ws_runs (toLowerCase s)"

text \<open>
  The three blocks of \<open>filterActivities\<close>, each with its guard. \<open>getTime\<close> stands for
  \<open>new Date(s).getTime()\<close> on a group's date string.
\<close>

definition dateStep :: "(string \<Rightarrow> jstime) \<Rightarrow> DateRange option \<Rightarrow> ActivityGroup list \<Rightarrow> ActivityGroup list" where
  "dateStep getTime rng filtered =
     (case rng of
        None \<Rightarrow> filtered
      | Some r \<Rightarrow>
          (case (range_from r, range_to r) of
             (Some fromDate, Some toDate) \<Rightarrow>
               filter (\<lambda>activity.
                  let activityDate = getTime (date activity)
                  in num_ge activityDate fromDate \<and> num_le activityDate toDate) filtered
           | _ \<Rightarrow> filtered))"

definition textStep :: "string \<Rightarrow> ActivityGroup list \<Rightarrow> ActivityGroup list" where
  "textStep query filtered =
     (if query \<noteq> [] then
        filter (\<lambda>group. length (items group) > 0)
          (map (\<lambda>group. group\<lparr>items :=
                  filter (\<lambda>item. str_includes (toLowerCase (description item)) (toLowerCase query))
                    (items group)\<rparr>) filtered)
      else filtered)"

definition categoryStep :: "string list \<Rightarrow> ActivityGroup list \<Rightarrow> ActivityGroup list" where
  "categoryStep categories filtered =
     (if length categories > 0 then
        filter (\<lambda>group. length (items group) > 0)
          (map (\<lambda>group. group\<lparr>items :=
                  filter (\<lambda>item. transformCategory (category item) \<in> set categories)
                    (items group)\<rparr>) filtered)
      else filtered)"

text \<open>
  \<open>filterActivities\<close> starts from the module's \<open>activities\<close> and runs the three blocks
  in the order date, text, category; the result is what it hands to
  \<open>setFilteredActivities\<close>.
\<close>

definition filterActivities ::
  "(string \<Rightarrow> jstime) \<Rightarrow> ActivityGroup list \<Rightarrow> string \<Rightarrow> DateRange option \<Rightarrow> string list \<Rightarrow> ActivityGroup list" where
  "filterActivities getTime activities query rng categories =
     (let filtered = activities;
          filtered = dateStep getTime rng filtered;
          filtered = textStep query filtered;
          filtered = categoryStep categories filtered
      in filtered)"

subsection \<open>Notions used to state the properties\<close>

text \<open>
  The text block and the category block have one shape: keep the items that satisfy
  a predicate, then drop the groups left without items.
\<close>

definition narrow :: "(ActivityItem \<Rightarrow> bool) \<Rightarrow> ActivityGroup list \<Rightarrow> ActivityGroup list" where
  "narrow P gs =
     filter (\<lambda>group. length (items group) > 0)
       (map (\<lambda>group. group\<lparr>items := filter P (items group)\<rparr>) gs)"

text \<open>The test the date block applies to a group's date string.\<close>

definition inRange :: "(string \<Rightarrow> jstime) \<Rightarrow> DateRange option \<Rightarrow> string \<Rightarrow> bool" where
  "inRange getTime rng d =
     (case rng of
        None \<Rightarrow> True
      | Some r \<Rightarrow>
          (case (range_from r, range_to r) of
             (Some f, Some t) \<Rightarrow> num_ge (getTime d) f \<and> num_le (getTime d) t
           | _ \<Rightarrow> True))"

text \<open>
  An output group comes from a source group: it is that group with some of its items,
  in their order. An output list comes from a source list: its groups come, one by
  one and in order, from some of the source groups.
\<close>

definition group_rel :: "ActivityGroup \<Rightarrow> ActivityGroup \<Rightarrow> bool" where
  "group_rel out g = (out = g\<lparr>items := items out\<rparr> \<and> subseq (items out) (items g))"

definition sub_of :: "ActivityGroup list \<Rightarrow> ActivityGroup list \<Rightarrow> bool" where
  "sub_of out gs = (\<exists>src. subseq src gs \<and> list_all2 group_rel out src)"

text \<open>
  A string read as pieces: a piece is a run of whitespace or a stretch free of
  whitespace, and no two runs are neighbours, so that every run is a maximal one.
  Normalising a piece gives one underscore for a run and the lower-cased piece
  otherwise. \<open>pieces\<close> cuts a string into such pieces.
\<close>

definition ws_run :: "string \<Rightarrow> bool" where
  "ws_run a = (a \<noteq> [] \<and> list_all is_space a)"

definition ws_free :: "string \<Rightarrow> bool" where
  "ws_free a = (a \<noteq> [] \<and> list_all (\<lambda>c. \<not> is_space c) a)"

fun maximal_runs :: "string list \<Rightarrow> bool" where
  "maximal_runs [] = True"
| "maximal_runs [a] = (ws_run a \<or> ws_free a)"
| "maximal_runs (a # b # segs) =
     ((ws_run a \<or> ws_free a) \<and> \<not> (ws_run a \<and> ws_run b) \<and> maximal_runs (b # segs))"

definition normalise_piece :: "string \<Rightarrow> string" where
  "normalise_piece a = (if ws_run a then ''_'' else toLowerCase a)"

function pieces :: "string \<Rightarrow> string list" where
  "pieces [] = []"
| "pieces (c # s) =
     (if is_space c then (c # takeWhile is_space s) # pieces (dropWhile is_space s)
      else [c] # pieces s)"
  by pat_completeness auto
termination
  by (relation "measure length") (auto simp: le_imp_less_Suc length_dropWhile_le)

text \<open>The example of the specification: one group with two items.\<close>

definition example_activities :: "ActivityGroup list" where
  "example_activities =
     [\<lparr>date = ''2024-01-10'',
       items = [\<lparr>category = ''Security Alert'', description = ''Login from Chrome''\<rparr>,
                \<lparr>category = ''Account'', description = ''Updated profile''\<rparr>]\<rparr>]"

section \<open>The HTTP client\<close>

subsection \<open>Values\<close>

text \<open>
  A parsed JSON value. Objects are association lists in key order; numbers are
  integers, which is all the client ever compares.
\<close>

datatype json = JNull | JBool bool | JNum int | JStr string | JArr "json list" | JObj "(string \<times> json) list"

text \<open>
  \<open>HttpError\<close> stores the status and the payload. Its message is computed from the
  payload alone (\<open>error.message\<close> or \<open>JSON.stringify(error)\<close>) and is not stored here;
  what the computation can do is throw, and \<open>new_HttpError\<close> below keeps that.
\<close>

record HttpError =
  status :: nat
  error :: json

text \<open>
  What a promise of the client rejects with: an \<open>HttpError\<close>, or any other JavaScript
  error, named by its class.
\<close>

datatype exn = HttpErr HttpError | OtherErr string

datatype Method = GET | POST | PUT | DELETE

text \<open>
  A \<open>BodyInit\<close> is a string or an object (\<open>Blob\<close>, \<open>FormData\<close>, \<dots>); an object is
  always truthy, a string is truthy when it is not empty.
\<close>

datatype BodyInit = BodyString string | BodyObject string

fun body_truthy :: "BodyInit option \<Rightarrow> bool" where
  "body_truthy None = False"
| "body_truthy (Some (BodyString s)) = (s \<noteq> [])"
| "body_truthy (Some (BodyObject _)) = True"

text \<open>
  A plain object with string values is the list of its entries in insertion order. A
  \<open>Headers\<close> object is its header list in the order of the appends; header names
  match without regard to letter case. Header names are taken to be valid and values
  to carry no leading or trailing whitespace, so that no append throws or trims. Of
  the three forms of \<open>HeadersInit\<close> the client is given a plain object or a \<open>Headers\<close>
  instance.
\<close>

type_synonym Headers = "(string \<times> string) list"
type_synonym jsobject = "(string \<times> string) list"

datatype HeadersInit = PlainObject jsobject | HeadersInstance Headers

record RequestOptions =
  req_method :: Method
  headers :: HeadersInit
  body :: "BodyInit option"

text \<open>The \<open>RequestInit\<close> handed to \<open>fetch\<close>; \<open>cfg_body = None\<close> is a config with no body.\<close>

record RequestInit =
  cfg_method :: Method
  cfg_credentials :: string
  cfg_headers :: Headers
  cfg_body :: "BodyInit option"

text \<open>
  A response is its status and what \<open>response.json()\<close> gives: \<open>Some\<close> of the parsed
  body, or \<open>None\<close> when the body is not JSON and the call rejects. \<open>response.ok\<close> is
  the status being in 200..299.
\<close>

record Response =
  resp_status :: nat
  resp_json :: "json option"

definition response_ok :: "Response \<Rightarrow> bool" where
  "response_ok response = (200 \<le> resp_status response \<and> resp_status response \<le> 299)"

datatype FetchResult = FetchRejects | FetchResolves Response

datatype RefreshResult = RefreshThrows exn | RefreshReturns json

text \<open>
  Modelled from the spec: the store behind \<open>useAuthStore\<close> is not among the sources.
  The session state holds an optional access token and an optional refresh token,
  and \<open>setAccessToken\<close> writes the access token.
\<close>

record AuthState =
  accessToken :: "string option"
  refreshToken :: "string option"

definition setAccessToken :: "AuthState \<Rightarrow> string option \<Rightarrow> AuthState" where
  "setAccessToken st tok = st\<lparr>accessToken := tok\<rparr>"

text \<open>The three environment variables the module reads; \<open>None\<close> is an unset variable.\<close>

record Env =
  REACT_APP_PUBLIC_BACKEND_URL :: "string option"
  REACT_APP_PUBLIC_X_BLOCKS_KEY :: "string option"
  REACT_APP_COOKIE_ENABLED :: "string option"

text \<open>
  The outside world is a state \<open>'w\<close> and the two calls that reach it. \<open>fetch\<close> answers a
  URL and a config; \<open>getRefreshToken\<close> (the auth service, not among the sources) reads
  the session state, answers with a value or throws, and does not write the session
  state.
\<close>

record 'w Net =
  fetch :: "'w \<Rightarrow> string \<Rightarrow> RequestInit \<Rightarrow> FetchResult \<times> 'w"
  getRefreshToken :: "'w \<Rightarrow> AuthState \<Rightarrow> RefreshResult \<times> 'w"

text \<open>
  A run of the client yields how its promise settles, the session state and the world
  it leaves, and the calls it made, in order. \<open>Pending\<close> is a promise that has not
  settled within the number of \<open>fetch\<close> calls the run was allowed.
\<close>

datatype event = EvFetch string RequestInit FetchResult | EvRefresh RefreshResult

datatype outcome = Resolved json | Rejected exn | Pending

type_synonym 'w run = "outcome \<times> AuthState \<times> 'w \<times> event list"

definition run_outcome :: "'w run \<Rightarrow> outcome" where
  "run_outcome r = (case r of (out, st, w, tr) \<Rightarrow> out)"

definition run_state :: "'w run \<Rightarrow> AuthState" where
  "run_state r = (case r of (out, st, w, tr) \<Rightarrow> st)"

definition run_trace :: "'w run \<Rightarrow> event list" where
  "run_trace r = (case r of (out, st, w, tr) \<Rightarrow> tr)"

definition after :: "event \<Rightarrow> 'w run \<Rightarrow> 'w run" where
  "after ev r = (case r of (out, st, w, tr) \<Rightarrow> (out, st, w, ev # tr))"

subsection \<open>Strings, objects and headers\<close>

text \<open>A string or \<open>null\<close>/\<open>undefined\<close> in a condition.\<close>

definition truthy :: "string option \<Rightarrow> bool" where
  "truthy v = (case v of None \<Rightarrow> False | Some s \<Rightarrow> s \<noteq> [])"

text \<open>\<open>s.replace(/\/$/, '')\<close> and \<open>s.replace(/^\//, '')\<close>: one slash at most is removed.\<close>

definition strip_trailing_slash :: "string \<Rightarrow> string" where
  "strip_trailing_slash s = (if s \<noteq> [] \<and> last s = CHR ''/'' then butlast s else s)"

definition strip_leading_slash :: "string \<Rightarrow> string" where
  "strip_leading_slash s = (case s of [] \<Rightarrow> [] | c # r \<Rightarrow> if c = CHR ''/'' then r else s)"

definition BASE_URL :: "Env \<Rightarrow> string option" where
  "BASE_URL env = map_option strip_trailing_slash (REACT_APP_PUBLIC_BACKEND_URL env)"

definition BLOCKS_KEY :: "Env \<Rightarrow> string" where
  "BLOCKS_KEY env = (case REACT_APP_PUBLIC_X_BLOCKS_KEY env of None \<Rightarrow> [] | Some k \<Rightarrow> k)"

text \<open>A value inside a template literal: \<open>undefined\<close> prints as the word.\<close>

definition template_str :: "string option \<Rightarrow> string" where
  "template_str v = (case v of None \<Rightarrow> ''undefined'' | Some s \<Rightarrow> s)"

definition fullUrl :: "Env \<Rightarrow> string \<Rightarrow> string" where
  "fullUrl env url =
     (if prefix ''http'' url then url
      else template_str (BASE_URL env) @ ''/'' @ strip_leading_slash url)"

text \<open>
  Assigning a property keeps the place of a key the object has and appends a new key;
  the spread \<open>{...target, ...src}\<close> assigns the entries of \<open>src\<close> in order.
\<close>

fun obj_assign :: "jsobject \<Rightarrow> string \<Rightarrow> string \<Rightarrow> jsobject" where
  "obj_assign [] k v = [(k, v)]"
| "obj_assign ((k', v') # obj) k v =
     (if k' = k then (k, v) # obj else (k', v') # obj_assign obj k v)"

definition spread :: "jsobject \<Rightarrow> jsobject \<Rightarrow> jsobject" where
  "spread target src = foldl (\<lambda>obj (k, v). obj_assign obj k v) target src"

definition fromEntries :: "(string \<times> string) list \<Rightarrow> jsobject" where
  "fromEntries es = spread [] es"

text \<open>
  Header names are compared and listed byte-lower-cased: only \<open>A\<close>..\<open>Z\<close> change.
\<close>

definition byte_lowercase_char :: "char \<Rightarrow> char" where
  "byte_lowercase_char c =
     (case map_of (zip ''ABCDEFGHIJKLMNOPQRSTUVWXYZ'' ''abcdefghijklmnopqrstuvwxyz'') c of
        Some l \<Rightarrow> l
      | None \<Rightarrow> c)"

definition byte_lowercase :: "string \<Rightarrow> string" where
  "byte_lowercase s = map byte_lowercase_char s"

text \<open>
  \<open>Headers\<close>: an append adds to the list, under the spelling of the first header of
  that name; \<open>new Headers(obj)\<close> appends the entries of \<open>obj\<close>; \<open>get\<close> joins the values
  of a name with a comma and a space; \<open>entries()\<close> lists the lower-cased names in
  sorted order, each with its joined values.
\<close>

definition headers_append :: "Headers \<Rightarrow> string \<Rightarrow> string \<Rightarrow> Headers" where
  "headers_append h name v =
     h @ [(case find (\<lambda>(k, _). byte_lowercase k = byte_lowercase name) h of
             Some (k, _) \<Rightarrow> k
           | None \<Rightarrow> name, v)]"

definition new_Headers :: "jsobject \<Rightarrow> Headers" where
  "new_Headers obj = foldl (\<lambda>h (k, v). headers_append h k v) [] obj"

fun join_values :: "string list \<Rightarrow> string" where
  "join_values [] = []"
| "join_values [v] = v"
| "join_values (v # vs) = v @ '', '' @ join_values vs"

definition headers_get :: "Headers \<Rightarrow> string \<Rightarrow> string option" where
  "headers_get h name =
     (case filter (\<lambda>(k, _). byte_lowercase k = byte_lowercase name) h of
        [] \<Rightarrow> None
      | kvs \<Rightarrow> Some (join_values (map snd kvs)))"

definition headers_entries :: "Headers \<Rightarrow> (string \<times> string) list" where
  "headers_entries h =
     map (\<lambda>n. (n, join_values (map snd (filter (\<lambda>(k, _). byte_lowercase k = n) h))))
       (sort (remdups (map (\<lambda>(k, _). byte_lowercase k) h)))"

subsection \<open>The client\<close>

definition createHeaders :: "Env \<Rightarrow> AuthState \<Rightarrow> HeadersInit \<Rightarrow> Headers" where
  "createHeaders env st hdrs =
     (let authToken =
            (if REACT_APP_COOKIE_ENABLED env = Some ''false'' then accessToken st else None);
          baseHeaders =
            spread [(''Content-Type'', ''application/json''), (''x-blocks-key'', BLOCKS_KEY env)]
              (if truthy authToken then [(''Authorization'', ''bearer '' @ template_str authToken)]
               else []);
          headerEntries =
            (case hdrs of
               HeadersInstance h \<Rightarrow> fromEntries (headers_entries h)
             | PlainObject obj \<Rightarrow> obj)
      in new_Headers (spread (spread [] baseHeaders) headerEntries))"

text \<open>
  Reading a property: of \<open>null\<close> it throws a \<open>TypeError\<close>, of an object it gives the
  value or \<open>undefined\<close> (\<open>None\<close>), of any other JSON value \<open>undefined\<close>.
\<close>

definition get_prop :: "json \<Rightarrow> string \<Rightarrow> exn + json option" where
  "get_prop v k =
     (case v of
        JNull \<Rightarrow> Inl (OtherErr ''TypeError'')
      | JObj kvs \<Rightarrow> Inr (map_of kvs k)
      | _ \<Rightarrow> Inr None)"

text \<open>
  A property that the types declare a string: any value that is not a string counts
  as absent.
\<close>

definition string_prop :: "json \<Rightarrow> string \<Rightarrow> string option" where
  "string_prop v k = (case get_prop v k of Inr (Some (JStr s)) \<Rightarrow> Some s | _ \<Rightarrow> None)"

text \<open>
  The constructor of \<open>HttpError\<close> reads \<open>error.message\<close> first, so it throws on a
  \<open>null\<close> payload; \<open>throw new HttpError(\<dots>)\<close> throws whichever error comes out.
\<close>

definition new_HttpError :: "nat \<Rightarrow> json \<Rightarrow> exn + HttpError" where
  "new_HttpError st err =
     (case get_prop err ''message'' of
        Inl e \<Rightarrow> Inl e
      | Inr _ \<Rightarrow> Inr \<lparr>status = st, error = err\<rparr>)"

definition throw_new_HttpError :: "nat \<Rightarrow> json \<Rightarrow> exn" where
  "throw_new_HttpError st err =
     (case new_HttpError st err of Inl e \<Rightarrow> e | Inr h \<Rightarrow> HttpErr h)"

text \<open>The \<open>catch\<close> block of \<open>request\<close>: what it throws for the error it caught.\<close>

definition catch_block :: "exn \<Rightarrow> exn" where
  "catch_block e =
     (case e of
        HttpErr h \<Rightarrow> HttpErr h
      | OtherErr _ \<Rightarrow> throw_new_HttpError 500 (JObj [(''error'', JStr ''Network error'')]))"

text \<open>The config of \<open>request\<close>: the body is set only when it is truthy.\<close>

definition request_config :: "Env \<Rightarrow> AuthState \<Rightarrow> RequestOptions \<Rightarrow> RequestInit" where
  "request_config env st opts =
     (let requestHeaders = createHeaders env st (headers opts);
          config = \<lparr>cfg_method = req_method opts, cfg_credentials = ''include'',
                    cfg_headers = requestHeaders, cfg_body = None\<rparr>
      in if body_truthy (body opts) then config\<lparr>cfg_body := body opts\<rparr> else config)"

text \<open>
  \<open>request\<close> and \<open>handleAuthError\<close> call each other with no bound of their own, so the
  model counts the \<open>fetch\<close> calls a run may still make: \<open>request 0\<close> is the call that
  has not been answered. Inside the \<open>try\<close> block only the awaited calls are caught:
  a rejection of \<open>fetch\<close>, of the \<open>response.json()\<close> of an error response, and the
  \<open>HttpError\<close> thrown there. The two promises that are returned without \<open>await\<close>
  (\<open>response.json()\<close> of an ok response, \<open>handleAuthError\<close>) settle the caller's
  promise as they are.
\<close>

fun request :: "nat \<Rightarrow> Env \<Rightarrow> 'w Net \<Rightarrow> AuthState \<Rightarrow> 'w \<Rightarrow> string \<Rightarrow> RequestOptions \<Rightarrow> 'w run"
  and handleAuthError :: "nat \<Rightarrow> Env \<Rightarrow> 'w Net \<Rightarrow> AuthState \<Rightarrow> 'w \<Rightarrow> string \<Rightarrow> Method \<Rightarrow> HeadersInit \<Rightarrow> BodyInit option \<Rightarrow> 'w run"
where
  "request 0 env net st w url opts = (Pending, st, w, [])"
| "request (Suc n) env net st w url opts =
     (let full = fullUrl env url;
          config = request_config env st opts;
          (res, w1) = fetch net w full config
      in after (EvFetch full config res)
          (case res of
             FetchRejects \<Rightarrow> (Rejected (catch_block (OtherErr ''TypeError'')), st, w1, [])
           | FetchResolves response \<Rightarrow>
               if response_ok response then
                 (case resp_json response of
                    Some v \<Rightarrow> (Resolved v, st, w1, [])
                  | None \<Rightarrow> (Rejected (OtherErr ''SyntaxError''), st, w1, []))
               else if resp_status response = 401 then
                 handleAuthError n env net st w1 url (req_method opts) (headers opts) (body opts)
               else
                 (case resp_json response of
                    None \<Rightarrow> (Rejected (catch_block (OtherErr ''SyntaxError'')), st, w1, [])
                  | Some err \<Rightarrow>
                      (Rejected (catch_block (throw_new_HttpError (resp_status response) err)),
                       st, w1, []))))"
| "handleAuthError n env net st w url m hdrs b =
     (let authStore = st
      in if \<not> truthy (refreshToken authStore) then
           (Rejected (throw_new_HttpError 401 (JObj [(''error'', JStr ''invalid_refresh_token'')])),
            st, w, [])
         else
           (let (refreshTokenRes, w1) = getRefreshToken net w st
            in after (EvRefresh refreshTokenRes)
                (case refreshTokenRes of
                   RefreshThrows e \<Rightarrow> (Rejected e, st, w1, [])
                 | RefreshReturns res \<Rightarrow>
                     (case get_prop res ''error'' of
                        Inl e \<Rightarrow> (Rejected e, st, w1, [])
                      | Inr err \<Rightarrow>
                          if err = Some (JStr ''invalid_refresh_token'') then
                            (Rejected (throw_new_HttpError 401 res), st, w1, [])
                          else
                            request n env net
                              (setAccessToken authStore (string_prop res ''access_token''))
                              w1 url \<lparr>req_method = m, headers = hdrs, body = b\<rparr>))))"

definition clients_get :: "nat \<Rightarrow> Env \<Rightarrow> 'w Net \<Rightarrow> AuthState \<Rightarrow> 'w \<Rightarrow> string \<Rightarrow> HeadersInit \<Rightarrow> 'w run" where
  "clients_get n env net st w url hdrs =
     request n env net st w url \<lparr>req_method = GET, headers = hdrs, body = None\<rparr>"

definition clients_post :: "nat \<Rightarrow> Env \<Rightarrow> 'w Net \<Rightarrow> AuthState \<Rightarrow> 'w \<Rightarrow> string \<Rightarrow> BodyInit \<Rightarrow> HeadersInit \<Rightarrow> 'w run" where
  "clients_post n env net st w url b hdrs =
     request n env net st w url \<lparr>req_method = POST, headers = hdrs, body = Some b\<rparr>"

definition clients_put :: "nat \<Rightarrow> Env \<Rightarrow> 'w Net \<Rightarrow> AuthState \<Rightarrow> 'w \<Rightarrow> string \<Rightarrow> BodyInit \<Rightarrow> HeadersInit \<Rightarrow> 'w run" where
  "clients_put n env net st w url b hdrs =
     request n env net st w url \<lparr>req_method = PUT, headers = hdrs, body = Some b\<rparr>"

definition clients_delete :: "nat \<Rightarrow> Env \<Rightarrow> 'w Net \<Rightarrow> AuthState \<Rightarrow> 'w \<Rightarrow> string \<Rightarrow> HeadersInit \<Rightarrow> 'w run" where
  "clients_delete n env net st w url hdrs =
     request n env net st w url \<lparr>req_method = DELETE, headers = hdrs, body = None\<rparr>"

subsection \<open>Reading a trace\<close>

fun is_fetch :: "event \<Rightarrow> bool" where
  "is_fetch (EvFetch _ _ _) = True"
| "is_fetch (EvRefresh _) = False"

fun is_refresh :: "event \<Rightarrow> bool" where
  "is_refresh (EvRefresh _) = True"
| "is_refresh (EvFetch _ _ _) = False"

text \<open>A \<open>fetch\<close> that was answered with status 401.\<close>

fun got_401 :: "event \<Rightarrow> bool" where
  "got_401 (EvFetch _ _ (FetchResolves response)) = (resp_status response = 401)"
| "got_401 _ = False"

text \<open>
  A refresh succeeds, for the client, when \<open>getRefreshToken\<close> returns a value whose
  \<open>error\<close> can be read and is not \<open>'invalid_refresh_token'\<close>. This is the test
  \<open>handleAuthError\<close> makes and no more: a value with no access token, such as \<open>{}\<close>
  or \<open>{error: 'invalid_grant'}\<close>, passes it.
\<close>

definition refresh_ok :: "json \<Rightarrow> bool" where
  "refresh_ok res =
     (case get_prop res ''error'' of
        Inl _ \<Rightarrow> False
      | Inr err \<Rightarrow> err \<noteq> Some (JStr ''invalid_refresh_token''))"

fun refresh_succeeded :: "event \<Rightarrow> bool" where
  "refresh_succeeded (EvRefresh (RefreshReturns res)) = refresh_ok res"
| "refresh_succeeded _ = False"

text \<open>The configs of the \<open>fetch\<close> calls of a trace, in order.\<close>

fun sent_configs :: "event list \<Rightarrow> RequestInit list" where
  "sent_configs [] = []"
| "sent_configs (EvFetch _ config _ # tr) = config # sent_configs tr"
| "sent_configs (EvRefresh _ # tr) = sent_configs tr"




subsection \<open>Example worlds\<close>

definition example_env :: Env where
  "example_env =
     \<lparr>REACT_APP_PUBLIC_BACKEND_URL = Some ''https://api.example.com/'',
      REACT_APP_PUBLIC_X_BLOCKS_KEY = Some ''K'',
      REACT_APP_COOKIE_ENABLED = Some ''false''\<rparr>"

definition example_state :: AuthState where
  "example_state = \<lparr>accessToken = Some ''stale'', refreshToken = Some ''r''\<rparr>"

text \<open>
  A server that answers the first \<open>k\<close> requests with 401 and every later one with 200,
  and a refresh endpoint that always issues a token. The world counts the requests.
\<close>

definition net_401s :: "nat \<Rightarrow> nat Net" where
  "net_401s k =
     \<lparr>fetch = (\<lambda>w url cfg.
         (FetchResolves
            (if w < k then \<lparr>resp_status = 401, resp_json = Some (JObj [])\<rparr>
             else \<lparr>resp_status = 200, resp_json = Some (JStr ''ok'')\<rparr>), Suc w)),
      getRefreshToken = (\<lambda>w st. (RefreshReturns (JObj [(''access_token'', JStr ''fresh'')]), w))\<rparr>"

text \<open>A server that answers every request with the given response.\<close>

definition net_const :: "Response \<Rightarrow> nat Net" where
  "net_const response =
     \<lparr>fetch = (\<lambda>w url cfg. (FetchResolves response, Suc w)),
      getRefreshToken = (\<lambda>w st. (RefreshReturns (JObj [(''access_token'', JStr ''fresh'')]), w))\<rparr>"

definition example_opts :: RequestOptions where
  "example_opts = \<lparr>req_method = GET, headers = PlainObject [], body = None\<rparr>"

text \<open>A session with no refresh token.\<close>

definition example_state_no_refresh :: AuthState where
  "example_state_no_refresh = \<lparr>accessToken = Some ''stale'', refreshToken = None\<rparr>"

text \<open>
  A request that is answered 401 twice and then 200, with every refresh succeeding;
  three \<open>fetch\<close> calls are allowed.
\<close>

definition run_two_401s :: "nat run" where
  "run_two_401s = request 3 example_env (net_401s 2) example_state 0 ''users'' example_opts"

text \<open>Two error responses: a 404 with a JSON body and a 502 whose body is not JSON.\<close>

definition response_404 :: Response where
  "response_404 =
     \<lparr>resp_status = 404, resp_json = Some (JObj [(''message'', JStr ''not found'')])\<rparr>"

definition response_502 :: Response where
  "response_502 = \<lparr>resp_status = 502, resp_json = None\<rparr>"

text \<open>A \<open>GET\<close> that is answered 404 with a JSON body.\<close>

definition run_404 :: "nat run" where
  "run_404 = request 1 example_env (net_const response_404) example_state 0 ''users'' example_opts"




text \<open>A \<open>POST\<close> of the empty string.\<close>

definition run_post_empty :: "nat run" where
  "run_post_empty =
     clients_post 1 example_env (net_const response_404) example_state 0 ''users''
       (BodyString []) (PlainObject [])"

section \<open>Properties of the filter engine\<close>

subsection \<open>The blocks as list operations\<close>

lemma textStep_narrow:
  "textStep query gs =
     (if query \<noteq> [] then
        narrow (\<lambda>item. str_includes (toLowerCase (description item)) (toLowerCase query)) gs
      else gs)"
  by (simp add: textStep_def narrow_def)

lemma categoryStep_narrow:
  "categoryStep categories gs =
     (if categories \<noteq> [] then
        narrow (\<lambda>item. transformCategory (category item) \<in> set categories) gs
      else gs)"
  by (simp add: categoryStep_def narrow_def)

lemma dateStep_filter:
  "dateStep getTime rng gs = filter (\<lambda>g. inRange getTime rng (date g)) gs"
  by (simp add: dateStep_def inRange_def Let_def split: option.splits)

lemma narrow_narrow: "narrow P (narrow Q gs) = narrow (\<lambda>x. Q x \<and> P x) gs"
  by (induction gs) (auto simp: narrow_def filter_empty_conv)

lemma narrow_comm: "narrow P (narrow Q gs) = narrow Q (narrow P gs)"
  by (simp add: narrow_narrow conj_commute)

lemma narrow_filter_date:
  "narrow P (filter (\<lambda>g. D (date g)) gs) = filter (\<lambda>g. D (date g)) (narrow P gs)"
  by (induction gs) (auto simp: narrow_def)

lemma narrow_alt:
  "narrow P gs =
     map (\<lambda>g. g\<lparr>items := filter P (items g)\<rparr>) (filter (\<lambda>g. \<exists>it\<in>set (items g). P it) gs)"
  by (induction gs) (auto simp: narrow_def filter_empty_conv)

lemma date_text:
  "dateStep getTime rng (textStep q gs) = textStep q (dateStep getTime rng gs)"
  by (simp add: dateStep_filter textStep_narrow narrow_filter_date)

lemma date_cat:
  "dateStep getTime rng (categoryStep c gs) = categoryStep c (dateStep getTime rng gs)"
  by (simp add: dateStep_filter categoryStep_narrow narrow_filter_date)

lemma text_cat: "textStep q (categoryStep c gs) = categoryStep c (textStep q gs)"
  by (simp add: textStep_narrow categoryStep_narrow narrow_comm)

subsection \<open>Normalising a category\<close>

lemma is_space_toLowerCase_char: "is_space (toLowerCase_char c) = is_space c"
  by (auto simp: toLowerCase_char_def is_space_def Let_def)

lemma replace_ws_runs_word:
  "\<forall>c\<in>set w. \<not> is_space c \<Longrightarrow> replace_ws_runs (w @ s) = w @ replace_ws_runs s"
  by (induction w) auto

lemma replace_ws_runs_id: "\<forall>c\<in>set w. \<not> is_space c \<Longrightarrow> replace_ws_runs w = w"
  using replace_ws_runs_word[of w "[]"] by simp

lemma dropWhile_run:
  "\<forall>c\<in>set ws. is_space c \<Longrightarrow> s = [] \<or> \<not> is_space (hd s) \<Longrightarrow>
   dropWhile is_space (ws @ s) = s"
  by (induction ws) (auto simp: dropWhile_eq_self_iff)

lemma replace_ws_runs_run:
  "replace_ws_runs (ws @ s) = CHR ''_'' # replace_ws_runs s"
  if "ws \<noteq> []" "\<forall>c\<in>set ws. is_space c" "s = [] \<or> \<not> is_space (hd s)"
proof (cases ws)
  case Nil
  then show ?thesis using that by simp
next
  case (Cons a list)
  with that have "dropWhile is_space (list @ s) = s" by (intro dropWhile_run) auto
  with Cons that show ?thesis by (simp del: dropWhile_append)
qed

lemma concat_pieces: "concat (pieces s) = s"
  by (induction s rule: pieces.induct) auto

lemma pieces_first:
  "s \<noteq> [] \<Longrightarrow> \<not> is_space (hd s) \<Longrightarrow> \<exists>segs. pieces s = [hd s] # segs"
  by (cases s) auto

lemma maximal_runs_Cons:
  "maximal_runs (a # segs) =
     ((ws_run a \<or> ws_free a)
      \<and> (case segs of [] \<Rightarrow> True | b # _ \<Rightarrow> \<not> (ws_run a \<and> ws_run b))
      \<and> maximal_runs segs)"
  by (cases segs) auto

lemma ws_run_not_free: "ws_run a \<Longrightarrow> \<not> ws_free a"
  by (cases a) (auto simp: ws_run_def ws_free_def)

lemma maximal_runs_pieces: "maximal_runs (pieces s)"
proof (induction s rule: pieces.induct)
  case 1
  show ?case by simp
next
  case (2 c s)
  show ?case
  proof (cases "is_space c")
    case True
    let ?r = "dropWhile is_space s"
    have run: "ws_run (c # takeWhile is_space s)"
      using True by (auto simp: ws_run_def list_all_iff dest: set_takeWhileD)
    have next_free: "case pieces ?r of [] \<Rightarrow> True
        | b # _ \<Rightarrow> \<not> (ws_run (c # takeWhile is_space s) \<and> ws_run b)"
    proof (cases "?r")
      case Nil
      show ?thesis unfolding Nil by simp
    next
      case (Cons d r')
      then have "\<not> is_space d" by (metis hd_dropWhile list.sel(1) list.distinct(1))
      then show ?thesis unfolding Cons by (simp add: ws_run_def)
    qed
    from True 2(1) run next_free show ?thesis
      by (simp add: maximal_runs_Cons del: maximal_runs.simps)
  next
    case False
    have "ws_free [c]" "\<not> ws_run [c]" using False by (simp_all add: ws_free_def ws_run_def)
    with False 2(2) show ?thesis
      by (simp add: maximal_runs_Cons split: list.splits del: maximal_runs.simps)
  qed
qed

lemma toLowerCase_append: "toLowerCase (a @ b) = toLowerCase a @ toLowerCase b"
  by (simp add: toLowerCase_def)

lemma transformCategory_word:
  "ws_free a \<Longrightarrow> transformCategory (a @ r) = toLowerCase a @ transformCategory r"
  unfolding transformCategory_def toLowerCase_append
  by (rule replace_ws_runs_word)
    (auto simp: ws_free_def list_all_iff toLowerCase_def is_space_toLowerCase_char)

lemma transformCategory_run:
  assumes "ws_run a" "r = [] \<or> \<not> is_space (hd r)"
  shows "transformCategory (a @ r) = CHR ''_'' # transformCategory r"
proof -
  have "toLowerCase a \<noteq> []" "\<forall>c\<in>set (toLowerCase a). is_space c"
    using assms(1) by (auto simp: ws_run_def list_all_iff toLowerCase_def is_space_toLowerCase_char)
  moreover have "toLowerCase r = [] \<or> \<not> is_space (hd (toLowerCase r))"
    using assms(2) by (cases r) (auto simp: toLowerCase_def is_space_toLowerCase_char)
  ultimately show ?thesis
    unfolding transformCategory_def toLowerCase_append by (rule replace_ws_runs_run)
qed

lemma transformCategory_Nil: "transformCategory [] = []"
  by (simp add: transformCategory_def toLowerCase_def)

lemma transformCategory_pieces:
  "maximal_runs segs \<Longrightarrow> transformCategory (concat segs) = concat (map normalise_piece segs)"
proof (induction segs rule: maximal_runs.induct)
  case 1
  show ?case by (simp add: transformCategory_Nil)
next
  case (2 a)
  then show ?case
    using transformCategory_word[of a "[]"] transformCategory_run[of a "[]"]
    by (auto simp: normalise_piece_def transformCategory_Nil dest: ws_run_not_free)
next
  case (3 a b segs)
  then have ih: "transformCategory (concat (b # segs)) = concat (map normalise_piece (b # segs))"
    and a: "ws_run a \<or> ws_free a" and ab: "\<not> (ws_run a \<and> ws_run b)"
    and b: "ws_run b \<or> ws_free b"
    by (auto simp: maximal_runs_Cons simp del: maximal_runs.simps)
  show ?case
  proof (cases "ws_run a")
    case True
    with ab b have "ws_free b" by blast
    then have "concat (b # segs) = [] \<or> \<not> is_space (hd (concat (b # segs)))"
      by (cases b) (auto simp: ws_free_def)
    moreover have "normalise_piece a = ''_''"
      using True by (simp add: normalise_piece_def)
    ultimately show ?thesis
      using transformCategory_run[OF True, of "concat (b # segs)"] ih by simp
  next
    case False
    with a have f: "ws_free a" by blast
    have "normalise_piece a = toLowerCase a"
      using False by (simp add: normalise_piece_def)
    with transformCategory_word[OF f, of "concat (b # segs)"] ih show ?thesis
      by simp
  qed
qed
subsection \<open>Output groups come from source groups\<close>

lemma group_rel_refl: "group_rel g g"
  by (simp add: group_rel_def)

lemma sub_of_refl: "sub_of gs gs"
  unfolding sub_of_def by (rule exI[of _ gs]) (simp add: list_all2_refl group_rel_refl)

lemma list_all2_filter_left:
  "list_all2 R out src \<Longrightarrow> \<exists>src'. subseq src' src \<and> list_all2 R (filter Q out) src'"
proof (induction rule: list_all2_induct)
  case Nil
  then show ?case by simp
next
  case (Cons x xs y ys)
  then obtain src' where s: "subseq src' ys" "list_all2 R (filter Q xs) src'"
    by blast
  show ?case
  proof (cases "Q x")
    case True
    with s Cons.hyps(1)
    have "subseq (y # src') (y # ys) \<and> list_all2 R (filter Q (x # xs)) (y # src')"
      by simp
    then show ?thesis by blast
  next
    case False
    with s have "subseq src' (y # ys) \<and> list_all2 R (filter Q (x # xs)) src'"
      by (simp add: list_emb_Cons)
    then show ?thesis by blast
  qed
qed

lemma sub_of_filter: "sub_of out gs \<Longrightarrow> sub_of (filter Q out) gs"
  unfolding sub_of_def using list_all2_filter_left subseq_order.order_trans by blast

lemma group_rel_items:
  "group_rel out g \<Longrightarrow> group_rel (out\<lparr>items := filter P (items out)\<rparr>) g"
  unfolding group_rel_def
  by (metis (no_types, lifting) ActivityGroup.surjective ActivityGroup.update_convs(2)
      ActivityGroup.select_convs(2) subseq_filter_left subseq_order.order_trans)

lemma sub_of_map:
  "sub_of out gs \<Longrightarrow> sub_of (map (\<lambda>group. group\<lparr>items := filter P (items group)\<rparr>) out) gs"
  unfolding sub_of_def
  by (auto simp: list_all2_map1 elim!: list_all2_mono intro: group_rel_items)

lemma sub_of_narrow: "sub_of out gs \<Longrightarrow> sub_of (narrow P out) gs"
  unfolding narrow_def by (intro sub_of_filter sub_of_map)

subsection \<open>The claims about the filter engine\<close>

text \<open>
  C4. For every source list and every combination of criteria, the three blocks (date
  range, text query, category set) composed in any of the five other orders give the
  same output as \<open>filterActivities\<close>, which composes them as date, then text, then
  category.
\<close>

theorem filter_order_independent:
  "categoryStep categories (dateStep getTime rng (textStep query activities)) =
     filterActivities getTime activities query rng categories
   \<and> textStep query (dateStep getTime rng (categoryStep categories activities)) =
     filterActivities getTime activities query rng categories
   \<and> textStep query (categoryStep categories (dateStep getTime rng activities)) =
     filterActivities getTime activities query rng categories
   \<and> dateStep getTime rng (textStep query (categoryStep categories activities)) =
     filterActivities getTime activities query rng categories
   \<and> dateStep getTime rng (categoryStep categories (textStep query activities)) =
     filterActivities getTime activities query rng categories"
  by (simp add: filterActivities_def date_text date_cat text_cat)

text \<open>
  C5. For every non-empty category list, the category block keeps, in each group that
  reaches it, exactly the items whose normalised category is a member of the list, and
  keeps exactly the groups that have such an item. The normalised category is fixed
  for every string: however the category is cut into maximal runs of whitespace and
  stretches free of whitespace, it is the stretches lower-cased and one underscore for
  each run, in order; and every string can be cut so.
\<close>

theorem category_predicate_keeps_members:
  assumes "categories \<noteq> []"
  shows "filterActivities getTime activities query rng categories =
           map (\<lambda>g. g\<lparr>items :=
                  filter (\<lambda>it. transformCategory (category it) \<in> set categories) (items g)\<rparr>)
             (filter (\<lambda>g. \<exists>it\<in>set (items g). transformCategory (category it) \<in> set categories)
                (filterActivities getTime activities query rng []))
         \<and> (maximal_runs segs \<longrightarrow>
               transformCategory (concat segs) = concat (map normalise_piece segs))
         \<and> (\<exists>segs. maximal_runs segs \<and> concat segs = s)"
proof -
  have "filterActivities getTime activities query rng categories =
          categoryStep categories (filterActivities getTime activities query rng [])"
    by (simp add: filterActivities_def categoryStep_def)
  moreover have "maximal_runs (pieces s) \<and> concat (pieces s) = s"
    by (simp add: maximal_runs_pieces concat_pieces)
  then have "\<exists>segs. maximal_runs segs \<and> concat segs = s" ..
  ultimately show ?thesis
    using assms by (simp add: categoryStep_narrow narrow_alt transformCategory_pieces)
qed

theorem category_predicate_keeps_members_witness:
  "[''account''] \<noteq> []
   \<and> filterActivities (\<lambda>d. None) example_activities [] None [''account''] =
       [\<lparr>date = ''2024-01-10'',
         items = [\<lparr>category = ''Account'', description = ''Updated profile''\<rparr>]\<rparr>]
   \<and> maximal_runs [''Two'', '' '', ''Factor'', ''  '', ''Auth'']
   \<and> transformCategory ''Two Factor  Auth'' = ''two_factor_auth''"
proof -
  have ne: "[''account''] \<noteq> []" by simp
  have m: "maximal_runs [''Two'', '' '', ''Factor'', ''  '', ''Auth'']"
    by code_simp
  have c: "concat [''Two'', '' '', ''Factor'', ''  '', ''Auth''] = ''Two Factor  Auth''"
    by simp
  have n: "concat (map normalise_piece [''Two'', '' '', ''Factor'', ''  '', ''Auth'']) =
      ''two_factor_auth''"
    by code_simp
  have f: "map (\<lambda>g. g\<lparr>items :=
                  filter (\<lambda>it. transformCategory (category it) \<in> set [''account'']) (items g)\<rparr>)
             (filter (\<lambda>g. \<exists>it\<in>set (items g). transformCategory (category it) \<in> set [''account''])
                (filterActivities (\<lambda>d. None) example_activities [] None [])) =
       [\<lparr>date = ''2024-01-10'',
         items = [\<lparr>category = ''Account'', description = ''Updated profile''\<rparr>]\<rparr>]"
    by code_simp
  note t = category_predicate_keeps_members
    [OF ne, of "\<lambda>d. None" example_activities "[]" None
       "[''Two'', '' '', ''Factor'', ''  '', ''Auth'']"]
  from t m have "transformCategory (concat [''Two'', '' '', ''Factor'', ''  '', ''Auth'']) =
      ''two_factor_auth''"
    unfolding n by blast
  then have "transformCategory ''Two Factor  Auth'' = ''two_factor_auth''"
    unfolding c .
  moreover from t have "filterActivities (\<lambda>d. None) example_activities [] None [''account''] =
       [\<lparr>date = ''2024-01-10'',
         items = [\<lparr>category = ''Account'', description = ''Updated profile''\<rparr>]\<rparr>]"
    unfolding f by blast
  ultimately show ?thesis using ne m by blast
qed

text \<open>
  C9. For every source list and every combination of criteria, the output of
  \<open>filterActivities\<close> comes from the source: its groups are, in order, some of the
  source groups, each with some of the items of that source group, in order, and with
  every other field as in the source. The filter is a function of its inputs and
  returns a new list; the source list is a value it only reads.
\<close>

theorem filter_output_subset:
  "\<exists>src. subseq src activities \<and>
     list_all2 (\<lambda>out g. out = g\<lparr>items := items out\<rparr> \<and> subseq (items out) (items g))
       (filterActivities getTime activities query rng categories) src"
proof -
  have "sub_of (filterActivities getTime activities query rng categories) activities"
    by (simp add: filterActivities_def Let_def dateStep_filter textStep_narrow
        categoryStep_narrow sub_of_filter sub_of_narrow sub_of_refl)
  moreover have "group_rel = (\<lambda>out g. out = g\<lparr>items := items out\<rparr> \<and> subseq (items out) (items g))"
    by (intro ext) (simp add: group_rel_def)
  ultimately show ?thesis by (simp add: sub_of_def)
qed

section \<open>Properties of the HTTP client\<close>

subsection \<open>One step of a request\<close>

lemma opts_rebuilt: "\<lparr>req_method = req_method opts, headers = headers opts, body = body opts\<rparr> = opts"
  by simp

lemma handleAuthError_no_token:
  "\<not> truthy (refreshToken st) \<Longrightarrow>
   handleAuthError n env net st w url m hdrs b =
     (Rejected (HttpErr \<lparr>status = 401, error = JObj [(''error'', JStr ''invalid_refresh_token'')]\<rparr>), st, w, [])"
  by (simp add: throw_new_HttpError_def new_HttpError_def get_prop_def)

lemma handleAuthError_retry:
  "truthy (refreshToken st) \<Longrightarrow> getRefreshToken net w st = (RefreshReturns rres, w2) \<Longrightarrow> refresh_ok rres \<Longrightarrow>
   handleAuthError n env net st w url m hdrs b =
     after (EvRefresh (RefreshReturns rres))
       (request n env net (setAccessToken st (string_prop rres ''access_token'')) w2 url
          \<lparr>req_method = m, headers = hdrs, body = b\<rparr>)"
  by (auto simp: refresh_ok_def split: sum.splits)

lemma handleAuthError_refresh_fails:
  "truthy (refreshToken st) \<Longrightarrow> getRefreshToken net w st = (rr, w2) \<Longrightarrow> \<not> refresh_succeeded (EvRefresh rr) \<Longrightarrow>
   \<exists>out. handleAuthError n env net st w url m hdrs b = (out, st, w2, [EvRefresh rr])"
  by (cases rr) (auto simp: refresh_ok_def after_def split: sum.splits)

lemma request_not_401:
  "fetch net w (fullUrl env url) (request_config env st opts) = (res, w1) \<Longrightarrow>
   \<not> got_401 (EvFetch (fullUrl env url) (request_config env st opts) res) \<Longrightarrow>
   \<exists>out. request (Suc n) env net st w url opts =
     (out, st, w1, [EvFetch (fullUrl env url) (request_config env st opts) res])"
  by (cases res) (auto simp: after_def Let_def split: option.splits)

lemma request_401:
  "fetch net w (fullUrl env url) (request_config env st opts) = (FetchResolves response, w1) \<Longrightarrow>
   resp_status response = 401 \<Longrightarrow>
   request (Suc n) env net st w url opts =
     after (EvFetch (fullUrl env url) (request_config env st opts) (FetchResolves response))
       (handleAuthError n env net st w1 url (req_method opts) (headers opts) (body opts))"
  by (simp add: response_ok_def Let_def del: handleAuthError.simps)

lemma request_Suc_shape:
  obtains
    (plain) res w1 out where
      "\<not> got_401 (EvFetch (fullUrl env url) (request_config env st opts) res)"
      "request (Suc n) env net st w url opts =
         (out, st, w1, [EvFetch (fullUrl env url) (request_config env st opts) res])"
  | (no_token) res w1 out where
      "got_401 (EvFetch (fullUrl env url) (request_config env st opts) res)"
      "\<not> truthy (refreshToken st)"
      "request (Suc n) env net st w url opts =
         (out, st, w1, [EvFetch (fullUrl env url) (request_config env st opts) res])"
  | (refresh_fails) res rr w2 out where
      "got_401 (EvFetch (fullUrl env url) (request_config env st opts) res)"
      "truthy (refreshToken st)"
      "\<not> refresh_succeeded (EvRefresh rr)"
      "request (Suc n) env net st w url opts =
         (out, st, w2, [EvFetch (fullUrl env url) (request_config env st opts) res, EvRefresh rr])"
  | (retry) res rres w2 where
      "got_401 (EvFetch (fullUrl env url) (request_config env st opts) res)"
      "truthy (refreshToken st)"
      "refresh_ok rres"
      "request (Suc n) env net st w url opts =
         after (EvFetch (fullUrl env url) (request_config env st opts) res)
           (after (EvRefresh (RefreshReturns rres))
              (request n env net (setAccessToken st (string_prop rres ''access_token'')) w2 url opts))"
proof -
  let ?full = "fullUrl env url" and ?cfg = "request_config env st opts"
  obtain res w1 where f: "fetch net w ?full ?cfg = (res, w1)" by (cases "fetch net w ?full ?cfg")
  show ?thesis
  proof (cases "got_401 (EvFetch ?full ?cfg res)")
    case False
    with request_not_401[OF f] plain show ?thesis by blast
  next
    case True
    then obtain response where r: "res = FetchResolves response" "resp_status response = 401"
      by (cases res) auto
    note req = request_401[OF f[unfolded r(1)] r(2), of n]
    show ?thesis
    proof (cases "truthy (refreshToken st)")
      case False
      then have "request (Suc n) env net st w url opts =
          (Rejected (HttpErr \<lparr>status = 401, error = JObj [(''error'', JStr ''invalid_refresh_token'')]\<rparr>),
           st, w1, [EvFetch ?full ?cfg res])"
        unfolding req r(1) by (simp add: handleAuthError_no_token after_def del: handleAuthError.simps)
      with True False show ?thesis by (rule no_token)
    next
      case tr: True
      obtain rr w2 where g: "getRefreshToken net w1 st = (rr, w2)"
        by (cases "getRefreshToken net w1 st")
      show ?thesis
      proof (cases "refresh_succeeded (EvRefresh rr)")
        case False
        from handleAuthError_refresh_fails[OF tr g False]
        obtain out where "handleAuthError n env net st w1 url (req_method opts) (headers opts) (body opts) =
            (out, st, w2, [EvRefresh rr])"
          by blast
        then have "request (Suc n) env net st w url opts =
            (out, st, w2, [EvFetch ?full ?cfg res, EvRefresh rr])"
          unfolding req r(1) by (simp add: after_def del: handleAuthError.simps)
        with True tr False show ?thesis by (rule refresh_fails)
      next
        case ok: True
        then obtain rres where rr: "rr = RefreshReturns rres" "refresh_ok rres"
          by (cases rr) auto
        have "request (Suc n) env net st w url opts =
            after (EvFetch ?full ?cfg res)
              (after (EvRefresh (RefreshReturns rres))
                 (request n env net (setAccessToken st (string_prop rres ''access_token'')) w2 url opts))"
          unfolding req r(1)
          by (simp only: handleAuthError_retry[OF tr g[unfolded rr(1)] rr(2)] opts_rebuilt)
        with True tr rr(2) show ?thesis by (rule retry)
      qed
    qed
  qed
qed

lemma run_after [simp]:
  "run_state (after ev r) = run_state r"
  "run_trace (after ev r) = ev # run_trace r"
  "run_outcome (after ev r) = run_outcome r"
  by (cases r; simp add: run_state_def run_trace_def run_outcome_def after_def)+

lemma run_tuple [simp]:
  "run_state (out, st, w, tr) = st"
  "run_trace (out, st, w, tr) = tr"
  "run_outcome (out, st, w, tr) = out"
  by (simp_all add: run_state_def run_trace_def run_outcome_def)

lemma setAccessToken_twice [simp]:
  "setAccessToken (setAccessToken st a) b = setAccessToken st b"
  "refreshToken (setAccessToken st a) = refreshToken st"
  "accessToken (setAccessToken st a) = a"
  by (simp_all add: setAccessToken_def)


lemma request_refresh_count:
  "length (filter is_refresh (run_trace (request n env net st w url opts))) =
     (if truthy (refreshToken st)
      then length (filter got_401 (run_trace (request n env net st w url opts))) else 0)"
proof (induction n arbitrary: st w)
  case 0
  show ?case by simp
next
  case (Suc n)
  show ?case
  proof (cases rule: request_Suc_shape[of env url st opts n net w])
    case (retry res rres w2)
    then show ?thesis
      using Suc.IH[of "setAccessToken st (string_prop rres ''access_token'')" w2] by simp
  qed simp_all
qed

lemma request_fetch_count:
  "length (filter is_fetch (run_trace (request n env net st w url opts))) \<le>
     Suc (length (filter refresh_succeeded (run_trace (request n env net st w url opts))))"
proof (induction n arbitrary: st w)
  case 0
  show ?case by simp
next
  case (Suc n)
  show ?case
  proof (cases rule: request_Suc_shape[of env url st opts n net w])
    case (retry res rres w2)
    then show ?thesis
      using Suc.IH[of "setAccessToken st (string_prop rres ''access_token'')" w2] by simp
  qed simp_all
qed

lemma request_same_request:
  "ev \<in> set (run_trace (request n env net st w url opts)) \<Longrightarrow> ev = EvFetch u cfg res \<Longrightarrow>
   u = fullUrl env url \<and>
   (\<exists>s. refreshToken s = refreshToken st \<and> cfg = request_config env s opts)"
proof (induction n arbitrary: st w)
  case 0
  then show ?case by simp
next
  case (Suc n)
  show ?case
  proof (cases rule: request_Suc_shape[of env url st opts n net w])
    case (retry res' rres w2)
    show ?thesis
    proof (cases "ev = EvFetch (fullUrl env url) (request_config env st opts) res'")
      case True
      with Suc.prems show ?thesis by auto
    next
      case False
      with Suc.prems retry
      have "ev \<in> set (run_trace (request n env net (setAccessToken st (string_prop rres ''access_token'')) w2 url opts))"
        by auto
      from Suc.IH[OF this Suc.prems(2)] show ?thesis by simp
    qed
  next
    case plain
    with Suc.prems show ?thesis by auto
  next
    case no_token
    with Suc.prems show ?thesis by auto
  next
    case refresh_fails
    with Suc.prems show ?thesis by auto
  qed
qed



lemma request_config_fields:
  "cfg_body (request_config env st opts) = (if body_truthy (body opts) then body opts else None)"
  "cfg_method (request_config env st opts) = req_method opts"
  "cfg_headers (request_config env st opts) = createHeaders env st (headers opts)"
  "cfg_credentials (request_config env st opts) = ''include''"
  by (simp_all add: request_config_def Let_def)

lemma request_Suc_first_fetch:
  "\<exists>res tr. run_trace (request (Suc n) env net st w url opts) =
     EvFetch (fullUrl env url) (request_config env st opts) res # tr"
  by (cases rule: request_Suc_shape[of env url st opts n net w]) simp_all

lemma retry_loop_unbounded:
  "truthy (refreshToken st) \<Longrightarrow> w + n \<le> k \<Longrightarrow>
   run_outcome (request n env (net_401s k) st w url opts) = Pending \<and>
   length (filter is_refresh (run_trace (request n env (net_401s k) st w url opts))) = n"
proof (induction n arbitrary: st w)
  case 0
  then show ?case by simp
next
  case (Suc n)
  let ?st2 = "setAccessToken st (Some ''fresh'')"
  have f: "fetch (net_401s k) w (fullUrl env url) (request_config env st opts) =
      (FetchResolves \<lparr>resp_status = 401, resp_json = Some (JObj [])\<rparr>, Suc w)"
    using Suc.prems by (simp add: net_401s_def)
  have g: "getRefreshToken (net_401s k) (Suc w) st = (RefreshReturns (JObj [(''access_token'', JStr ''fresh'')]), Suc w)"
    by (simp add: net_401s_def)
  have ok: "refresh_ok (JObj [(''access_token'', JStr ''fresh'')])"
    by (simp add: refresh_ok_def get_prop_def)
  have tok: "string_prop (JObj [(''access_token'', JStr ''fresh'')]) ''access_token'' = Some ''fresh''"
    by (simp add: string_prop_def get_prop_def)
  have "request (Suc n) env (net_401s k) st w url opts =
      after (EvFetch (fullUrl env url) (request_config env st opts) (FetchResolves \<lparr>resp_status = 401, resp_json = Some (JObj [])\<rparr>))
        (after (EvRefresh (RefreshReturns (JObj [(''access_token'', JStr ''fresh'')])))
           (request n env (net_401s k) ?st2 (Suc w) url opts))"
    using request_401[OF f, of n] handleAuthError_retry[OF Suc.prems(1) g ok, of n env url "req_method opts" "headers opts" "body opts"]
    by (simp add: opts_rebuilt tok del: request.simps handleAuthError.simps)
  moreover have "truthy (refreshToken ?st2)" "Suc w + n \<le> k" using Suc.prems by simp_all
  note Suc.IH[OF this]
  ultimately show ?case by simp
qed

lemma sent_configs_request:
  "cfg \<in> set (sent_configs (run_trace (request n env net st w url opts))) \<Longrightarrow>
   \<exists>s. refreshToken s = refreshToken st \<and> cfg = request_config env s opts"
proof (induction n arbitrary: st w)
  case 0
  then show ?case by simp
next
  case (Suc n)
  show ?case
  proof (cases rule: request_Suc_shape[of env url st opts n net w])
    case (retry res rres w2)
    with Suc.prems
    consider "cfg = request_config env st opts"
      | "cfg \<in> set (sent_configs (run_trace (request n env net
            (setAccessToken st (string_prop rres ''access_token'')) w2 url opts)))"
      by auto
    then show ?thesis
    proof cases
      case 1
      then show ?thesis by blast
    next
      case 2
      from Suc.IH[OF this] show ?thesis by simp
    qed
  next
    case plain
    with Suc.prems show ?thesis by auto
  next
    case no_token
    with Suc.prems show ?thesis by auto
  next
    case refresh_fails
    with Suc.prems show ?thesis by auto
  qed
qed

subsection \<open>Merged objects and header names\<close>

text \<open>
  As maps, the spread is the target overridden by the source, a later entry of the
  source overriding an earlier one: in the object that \<open>createHeaders\<close> hands to
  \<open>new Headers\<close>, a key of the caller's object has the caller's value.
\<close>

lemma map_of_obj_assign: "map_of (obj_assign obj k v) = (map_of obj)(k \<mapsto> v)"
  by (induction obj) auto

lemma map_of_spread: "map_of (spread target src) = map_of target ++ map_of (rev src)"
proof (induction src arbitrary: target)
  case Nil
  show ?case by (simp add: spread_def)
next
  case (Cons x src)
  obtain k v where x: "x = (k, v)" by (cases x)
  have "map_of (spread target (x # src)) = map_of (spread (obj_assign target k v) src)"
    by (simp add: spread_def x)
  also have "\<dots> = (map_of target)(k \<mapsto> v) ++ map_of (rev src)"
    by (simp only: Cons.IH map_of_obj_assign)
  also have "\<dots> = map_of target ++ map_of (rev (x # src))"
    by (auto simp: x fun_eq_iff map_add_def split: option.splits)
  finally show ?case .
qed

lemma merged_object_prefers_caller:
  "map_of (rev obj) k = Some v \<Longrightarrow> map_of (spread (spread [] base) obj) k = Some v"
  by (simp add: map_of_spread map_add_def)
lemma byte_lowercase_header_names:
  "byte_lowercase ''Content-Type'' = ''content-type''"
  "byte_lowercase ''content-type'' = ''content-type''"
  "byte_lowercase ''x-blocks-key'' = ''x-blocks-key''"
  "byte_lowercase ''Authorization'' = ''authorization''"
  by code_simp+

lemma entries_of_content_type:
  "fromEntries (headers_entries (new_Headers [(''Content-Type'', ''text/plain'')])) =
     [(''content-type'', ''text/plain'')]"
  by code_simp


subsection \<open>The claims about the HTTP client\<close>

text \<open>
  C1, as the code has it. For every request, the refresh endpoint is called once for
  each 401 response the run receives when a refresh token is stored, and never
  otherwise; the number of \<open>fetch\<close> calls is at most one more than the number of
  successful refreshes; every \<open>fetch\<close> of the run carries the URL, the method and the
  body of the original request and the headers built from the caller's headers. A 401
  that is followed by a successful refresh stores the new token and issues the original
  request again through \<open>request\<close> itself, so that a retry answered 401 is refreshed
  and retried in its turn.
\<close>

theorem refresh_once_per_401_response:
  fixes n :: nat and env :: Env and net :: "'w Net" and st :: AuthState and w :: 'w
    and url :: string and opts :: RequestOptions and r :: "'w run"
  defines "r \<equiv> request n env net st w url opts"
  shows "length (filter is_refresh (run_trace r)) =
           (if truthy (refreshToken st) then length (filter got_401 (run_trace r)) else 0)
       \<and> length (filter is_fetch (run_trace r)) \<le>
           Suc (length (filter refresh_succeeded (run_trace r)))
       \<and> (\<forall>cfg\<in>set (sent_configs (run_trace r)).
             cfg_method cfg = req_method opts
             \<and> cfg_body cfg = (if body_truthy (body opts) then body opts else None)
             \<and> (\<exists>s. refreshToken s = refreshToken st
                    \<and> cfg_headers cfg = createHeaders env s (headers opts)))
       \<and> (\<forall>ev\<in>set (run_trace r). \<forall>u cfg res. ev = EvFetch u cfg res \<longrightarrow> u = fullUrl env url)
       \<and> (fetch net w (fullUrl env url) (request_config env st opts) = (FetchResolves response, wa)
            \<and> resp_status response = 401 \<and> truthy (refreshToken st)
            \<and> getRefreshToken net wa st = (RefreshReturns rres, wb) \<and> refresh_ok rres
          \<longrightarrow> request (Suc n) env net st w url opts =
                after (EvFetch (fullUrl env url) (request_config env st opts) (FetchResolves response))
                  (after (EvRefresh (RefreshReturns rres))
                     (request n env net (setAccessToken st (string_prop rres ''access_token''))
                        wb url opts)))"
proof (intro conjI impI ballI allI)
  show "length (filter is_refresh (run_trace r)) =
          (if truthy (refreshToken st) then length (filter got_401 (run_trace r)) else 0)"
    unfolding r_def by (rule request_refresh_count)
  show "length (filter is_fetch (run_trace r)) \<le> Suc (length (filter refresh_succeeded (run_trace r)))"
    unfolding r_def by (rule request_fetch_count)
next
  fix cfg assume "cfg \<in> set (sent_configs (run_trace r))"
  then have "\<exists>s. refreshToken s = refreshToken st \<and> cfg = request_config env s opts"
    unfolding r_def by (rule sent_configs_request)
  then obtain s where s: "refreshToken s = refreshToken st" "cfg = request_config env s opts"
    by blast
  show "cfg_method cfg = req_method opts"
    using s(2) by (simp add: request_config_fields)
  show "cfg_body cfg = (if body_truthy (body opts) then body opts else None)"
    using s(2) by (simp add: request_config_fields)
  show "\<exists>s. refreshToken s = refreshToken st \<and> cfg_headers cfg = createHeaders env s (headers opts)"
    using s by (intro exI[of _ s]) (simp add: request_config_fields)
next
  fix ev u cfg res assume "ev \<in> set (run_trace r)" "ev = EvFetch u cfg res"
  then show "u = fullUrl env url"
    unfolding r_def by (rule request_same_request[THEN conjunct1])
next
  assume a: "fetch net w (fullUrl env url) (request_config env st opts) = (FetchResolves response, wa)
            \<and> resp_status response = 401 \<and> truthy (refreshToken st)
            \<and> getRefreshToken net wa st = (RefreshReturns rres, wb) \<and> refresh_ok rres"
  then have "handleAuthError n env net st wa url (req_method opts) (headers opts) (body opts) =
      after (EvRefresh (RefreshReturns rres))
        (request n env net (setAccessToken st (string_prop rres ''access_token'')) wb url opts)"
    using handleAuthError_retry[of st net wa rres wb n env url "req_method opts" "headers opts" "body opts"]
    by (simp add: opts_rebuilt del: handleAuthError.simps)
  with a show "request (Suc n) env net st w url opts =
      after (EvFetch (fullUrl env url) (request_config env st opts) (FetchResolves response))
        (after (EvRefresh (RefreshReturns rres))
           (request n env net (setAccessToken st (string_prop rres ''access_token'')) wb url opts))"
    using request_401[of net w env url st opts response wa n]
    by (simp del: request.simps handleAuthError.simps)
qed

theorem retry_triggers_further_refresh:
  "run_outcome run_two_401s = Resolved (JStr ''ok'')
   \<and> map is_refresh (run_trace run_two_401s) = [False, True, False, True, False]
   \<and> length (filter is_refresh (run_trace run_two_401s)) = 2
   \<and> length (filter is_fetch (run_trace run_two_401s)) = 3"
  by code_simp

theorem refresh_once_per_401_response_witness:
  "fetch (net_401s 2) 0 (fullUrl example_env ''users'')
       (request_config example_env example_state example_opts) =
     (FetchResolves \<lparr>resp_status = 401, resp_json = Some (JObj [])\<rparr>, 1)
   \<and> truthy (refreshToken example_state)
   \<and> getRefreshToken (net_401s 2) 1 example_state =
       (RefreshReturns (JObj [(''access_token'', JStr ''fresh'')]), 1)
   \<and> refresh_ok (JObj [(''access_token'', JStr ''fresh'')])
   \<and> run_two_401s =
       after (EvFetch (fullUrl example_env ''users'')
                (request_config example_env example_state example_opts)
                (FetchResolves \<lparr>resp_status = 401, resp_json = Some (JObj [])\<rparr>))
         (after (EvRefresh (RefreshReturns (JObj [(''access_token'', JStr ''fresh'')])))
            (request 2 example_env (net_401s 2)
               (setAccessToken example_state
                  (string_prop (JObj [(''access_token'', JStr ''fresh'')]) ''access_token''))
               1 ''users'' example_opts))
   \<and> length (filter is_refresh (run_trace run_two_401s)) =
       length (filter got_401 (run_trace run_two_401s))"
proof -
  have f: "fetch (net_401s 2) 0 (fullUrl example_env ''users'')
       (request_config example_env example_state example_opts) =
     (FetchResolves \<lparr>resp_status = 401, resp_json = Some (JObj [])\<rparr>, 1)"
    by (simp add: net_401s_def)
  have t: "truthy (refreshToken example_state)"
    by (simp add: truthy_def example_state_def)
  have g: "getRefreshToken (net_401s 2) 1 example_state =
       (RefreshReturns (JObj [(''access_token'', JStr ''fresh'')]), 1)"
    by (simp add: net_401s_def)
  have k: "refresh_ok (JObj [(''access_token'', JStr ''fresh'')])"
    by (simp add: refresh_ok_def get_prop_def)
  have s: "Suc 2 = 3" by simp
  note step = refresh_once_per_401_response
    [where n = 2 and env = example_env and net = "net_401s 2" and st = example_state
       and w = 0 and url = "''users''" and opts = example_opts
       and response = "\<lparr>resp_status = 401, resp_json = Some (JObj [])\<rparr>" and wa = 1
       and rres = "JObj [(''access_token'', JStr ''fresh'')]" and wb = 1]
  note count = refresh_once_per_401_response
    [where n = 3 and env = example_env and net = "net_401s 2" and st = example_state
       and w = 0 and url = "''users''" and opts = example_opts]
  from step f t g k have "run_two_401s =
       after (EvFetch (fullUrl example_env ''users'')
                (request_config example_env example_state example_opts)
                (FetchResolves \<lparr>resp_status = 401, resp_json = Some (JObj [])\<rparr>))
         (after (EvRefresh (RefreshReturns (JObj [(''access_token'', JStr ''fresh'')])))
            (request 2 example_env (net_401s 2)
               (setAccessToken example_state
                  (string_prop (JObj [(''access_token'', JStr ''fresh'')]) ''access_token''))
               1 ''users'' example_opts))"
    unfolding run_two_401s_def s[symmetric] by (simp del: request.simps)
  moreover from count t have "length (filter is_refresh (run_trace run_two_401s)) =
       length (filter got_401 (run_trace run_two_401s))"
    unfolding run_two_401s_def by (simp del: request.simps)
  ultimately show ?thesis using f t g k by blast
qed

text \<open>
  C2, as the code has it. For every request that receives a response that is neither
  ok nor 401: when the body of the response parses as a JSON value other than \<open>null\<close>,
  the request fails with an \<open>HttpError\<close> whose status is the status of the response
  and whose payload is the parsed body; when the body does not parse, or is \<open>null\<close>,
  it fails with the \<open>HttpError\<close> of status 500 and payload \<open>{error: 'Network error'}\<close>.
  Nothing but the one \<open>fetch\<close> is called and the session state is as before.
\<close>

theorem api_error_carries_status_and_body:
  assumes "fetch net w (fullUrl env url) (request_config env st opts) = (FetchResolves response, wa)"
    and "\<not> response_ok response" and "resp_status response \<noteq> 401"
  shows "(resp_json response = Some err \<and> err \<noteq> JNull \<longrightarrow>
           request (Suc n) env net st w url opts =
             (Rejected (HttpErr \<lparr>status = resp_status response, error = err\<rparr>), st, wa,
              [EvFetch (fullUrl env url) (request_config env st opts) (FetchResolves response)]))
       \<and> (resp_json response = None \<or> resp_json response = Some JNull \<longrightarrow>
           request (Suc n) env net st w url opts =
             (Rejected (HttpErr \<lparr>status = 500, error = JObj [(''error'', JStr ''Network error'')]\<rparr>),
              st, wa,
              [EvFetch (fullUrl env url) (request_config env st opts) (FetchResolves response)]))"
  using assms
  by (cases err)
    (auto simp: Let_def after_def throw_new_HttpError_def new_HttpError_def get_prop_def
      catch_block_def)

theorem api_error_carries_status_and_body_witness:
  "fetch (net_const response_404) 0 (fullUrl example_env ''users'')
       (request_config example_env example_state example_opts) = (FetchResolves response_404, 1)
   \<and> \<not> response_ok response_404 \<and> resp_status response_404 \<noteq> 401
   \<and> resp_json response_404 = Some (JObj [(''message'', JStr ''not found'')])
   \<and> JObj [(''message'', JStr ''not found'')] \<noteq> JNull
   \<and> run_404 =
       (Rejected (HttpErr \<lparr>status = 404, error = JObj [(''message'', JStr ''not found'')]\<rparr>),
        example_state, 1,
        [EvFetch (fullUrl example_env ''users'')
           (request_config example_env example_state example_opts) (FetchResolves response_404)])"
proof -
  have f: "fetch (net_const response_404) 0 (fullUrl example_env ''users'')
       (request_config example_env example_state example_opts) = (FetchResolves response_404, 1)"
    by (simp add: net_const_def)
  have r: "\<not> response_ok response_404" "resp_status response_404 \<noteq> 401"
    "resp_json response_404 = Some (JObj [(''message'', JStr ''not found'')])"
    by (simp_all add: response_404_def response_ok_def)
  from api_error_carries_status_and_body[OF f r(1,2), of "JObj [(''message'', JStr ''not found'')]" 0] r(3)
  have "run_404 =
       (Rejected (HttpErr \<lparr>status = 404, error = JObj [(''message'', JStr ''not found'')]\<rparr>),
        example_state, 1,
        [EvFetch (fullUrl example_env ''users'')
           (request_config example_env example_state example_opts) (FetchResolves response_404)])"
    unfolding run_404_def One_nat_def by (simp add: response_404_def del: request.simps)
  with f r show ?thesis by simp
qed

theorem unparsable_error_body_gives_500:
  "\<not> response_ok response_502 \<and> resp_status response_502 = 502
   \<and> run_outcome (request 1 example_env (net_const response_502) example_state 0 ''users''
        example_opts) =
       Rejected (HttpErr \<lparr>status = 500, error = JObj [(''error'', JStr ''Network error'')]\<rparr>)"
  by code_simp

text \<open>
  C3. For every request that receives a 401 while the stored refresh token is absent
  (or the empty string), the request fails with the \<open>HttpError\<close> of status 401 and
  payload \<open>{error: 'invalid_refresh_token'}\<close>; the only call of the run is the
  \<open>fetch\<close> that was answered 401, the world is as that \<open>fetch\<close> left it, and the
  session state is as before.
\<close>

theorem absent_refresh_token_fails_without_refresh:
  assumes "fetch net w (fullUrl env url) (request_config env st opts) = (FetchResolves response, wa)"
    and "resp_status response = 401"
    and "\<not> truthy (refreshToken st)"
  shows "request (Suc n) env net st w url opts =
    (Rejected (HttpErr \<lparr>status = 401, error = JObj [(''error'', JStr ''invalid_refresh_token'')]\<rparr>),
     st, wa, [EvFetch (fullUrl env url) (request_config env st opts) (FetchResolves response)])"
  using assms
  by (simp add: request_401 handleAuthError_no_token after_def
      del: request.simps handleAuthError.simps)

theorem absent_refresh_token_fails_without_refresh_witness:
  "fetch (net_401s 1) 0 (fullUrl example_env ''users'')
       (request_config example_env example_state_no_refresh example_opts) =
     (FetchResolves \<lparr>resp_status = 401, resp_json = Some (JObj [])\<rparr>, 1)
   \<and> resp_status \<lparr>resp_status = 401, resp_json = Some (JObj [])\<rparr> = 401
   \<and> refreshToken example_state_no_refresh = None
   \<and> \<not> truthy (refreshToken example_state_no_refresh)
   \<and> request (Suc 0) example_env (net_401s 1) example_state_no_refresh 0 ''users'' example_opts =
       (Rejected (HttpErr \<lparr>status = 401,
                           error = JObj [(''error'', JStr ''invalid_refresh_token'')]\<rparr>),
        example_state_no_refresh, 1,
        [EvFetch (fullUrl example_env ''users'')
           (request_config example_env example_state_no_refresh example_opts)
           (FetchResolves \<lparr>resp_status = 401, resp_json = Some (JObj [])\<rparr>)])"
proof -
  have f: "fetch (net_401s 1) 0 (fullUrl example_env ''users'')
       (request_config example_env example_state_no_refresh example_opts) =
     (FetchResolves \<lparr>resp_status = 401, resp_json = Some (JObj [])\<rparr>, 1)"
    by (simp add: net_401s_def)
  have s: "resp_status \<lparr>resp_status = 401, resp_json = Some (JObj [])\<rparr> = 401"
    by simp
  have t: "refreshToken example_state_no_refresh = None"
    "\<not> truthy (refreshToken example_state_no_refresh)"
    by (simp_all add: example_state_no_refresh_def truthy_def)
  from absent_refresh_token_fails_without_refresh[OF f s t(2), of 0] f s t
  show ?thesis by blast
qed

text \<open>
  C6, as the code has it. A URL that starts with the characters \<open>http\<close> is passed
  through unchanged, whatever the base URL; that holds of an absolute URL and also of
  a relative path such as \<open>http-logs\<close>, which is not prefixed. Every other URL is
  prefixed with the configured base URL and exactly one slash separates them in each
  of the four combinations: for a base \<open>b\<close> that does not end in a slash and a path
  \<open>p\<close> that does not start with one, \<open>b\<close> or \<open>b/\<close> with \<open>p\<close> or \<open>/p\<close> resolves to
  \<open>b/p\<close>. In full: the result is \<open>c/q\<close>, where \<open>c\<close> is the base without its last
  character when that is a slash, and the base otherwise, and \<open>q\<close> is the URL without
  its first character when that is a slash, and the URL otherwise.
\<close>

theorem fullUrl_single_slash:
  "(prefix ''http'' u \<longrightarrow> fullUrl env u = u)
   \<and> (REACT_APP_PUBLIC_BACKEND_URL env = Some base \<and> (base = b \<or> base = b @ ''/'')
        \<and> (b = [] \<or> last b \<noteq> CHR ''/'') \<and> (url = p \<or> url = ''/'' @ p)
        \<and> \<not> prefix ''/'' p \<and> \<not> prefix ''http'' url
      \<longrightarrow> fullUrl env url = b @ ''/'' @ p)
   \<and> (REACT_APP_PUBLIC_BACKEND_URL env = Some base' \<and> \<not> prefix ''http'' url'
        \<and> (base' = c @ ''/'' \<or> (c = base' \<and> (base' = [] \<or> last base' \<noteq> CHR ''/'')))
        \<and> (url' = ''/'' @ q \<or> (q = url' \<and> \<not> prefix ''/'' url'))
      \<longrightarrow> fullUrl env url' = c @ ''/'' @ q)"
proof (intro conjI impI)
  assume "prefix ''http'' u"
  then show "fullUrl env u = u" by (simp add: fullUrl_def)
next
  assume "REACT_APP_PUBLIC_BACKEND_URL env = Some base' \<and> \<not> prefix ''http'' url'
        \<and> (base' = c @ ''/'' \<or> (c = base' \<and> (base' = [] \<or> last base' \<noteq> CHR ''/'')))
        \<and> (url' = ''/'' @ q \<or> (q = url' \<and> \<not> prefix ''/'' url'))"
  then show "fullUrl env url' = c @ ''/'' @ q"
    by (auto simp: fullUrl_def BASE_URL_def template_str_def strip_trailing_slash_def
        strip_leading_slash_def split: list.splits)
next
  assume "REACT_APP_PUBLIC_BACKEND_URL env = Some base \<and> (base = b \<or> base = b @ ''/'')
        \<and> (b = [] \<or> last b \<noteq> CHR ''/'') \<and> (url = p \<or> url = ''/'' @ p)
        \<and> \<not> prefix ''/'' p \<and> \<not> prefix ''http'' url"
  then show "fullUrl env url = b @ ''/'' @ p"
    by (auto simp: fullUrl_def BASE_URL_def template_str_def strip_trailing_slash_def
        strip_leading_slash_def split: list.splits)
qed

theorem fullUrl_single_slash_witness:
  "prefix ''http'' ''https://other.example.org/x''
   \<and> fullUrl example_env ''https://other.example.org/x'' = ''https://other.example.org/x''
   \<and> REACT_APP_PUBLIC_BACKEND_URL example_env = Some ''https://api.example.com/''
   \<and> last ''https://api.example.com'' \<noteq> CHR ''/''
   \<and> \<not> prefix ''/'' ''http-logs'' \<and> \<not> prefix ''http'' ''/http-logs''
   \<and> fullUrl example_env ''/http-logs'' = ''https://api.example.com/http-logs''
   \<and> \<not> prefix ''http'' ''//users''
   \<and> fullUrl example_env ''//users'' = ''https://api.example.com//users''"
proof -
  have h: "prefix ''http'' ''https://other.example.org/x''"
    by simp
  have e: "REACT_APP_PUBLIC_BACKEND_URL example_env = Some ''https://api.example.com/''"
    by (simp add: example_env_def)
  have four: "''https://api.example.com/'' = ''https://api.example.com'' \<or>
      ''https://api.example.com/'' = ''https://api.example.com'' @ ''/''"
    "''https://api.example.com'' = [] \<or> last ''https://api.example.com'' \<noteq> CHR ''/''"
    "''/http-logs'' = ''http-logs'' \<or> ''/http-logs'' = ''/'' @ ''http-logs''"
    "\<not> prefix ''/'' ''http-logs''" "\<not> prefix ''http'' ''/http-logs''"
    by simp_all
  have full: "\<not> prefix ''http'' ''//users''"
    "''https://api.example.com/'' = ''https://api.example.com'' @ ''/'' \<or>
       (''https://api.example.com'' = ''https://api.example.com/'' \<and>
        (''https://api.example.com/'' = [] \<or> last ''https://api.example.com/'' \<noteq> CHR ''/''))"
    "''//users'' = ''/'' @ ''/users'' \<or> (''/users'' = ''//users'' \<and> \<not> prefix ''/'' ''//users'')"
    by simp_all
  note t = fullUrl_single_slash
    [where u = "''https://other.example.org/x''" and env = example_env
       and base = "''https://api.example.com/''" and b = "''https://api.example.com''"
       and url = "''/http-logs''" and p = "''http-logs''"
       and base' = "''https://api.example.com/''" and c = "''https://api.example.com''"
       and url' = "''//users''" and q = "''/users''"]
  from t h have 1: "fullUrl example_env ''https://other.example.org/x'' =
      ''https://other.example.org/x''"
    by blast
  from t e four have 2: "fullUrl example_env ''/http-logs'' =
      ''https://api.example.com'' @ ''/'' @ ''http-logs''"
    by blast
  from t e full have 3: "fullUrl example_env ''//users'' =
      ''https://api.example.com'' @ ''/'' @ ''/users''"
    by blast
  from 1 2 3 h e four full show ?thesis by simp
qed

theorem relative_path_starting_http_passes_through:
  "\<not> prefix ''http://'' ''http-logs'' \<and> \<not> prefix ''https://'' ''http-logs''
   \<and> REACT_APP_PUBLIC_BACKEND_URL example_env = Some ''https://api.example.com/''
   \<and> fullUrl example_env ''http-logs'' = ''http-logs''
   \<and> \<not> prefix ''https://api.example.com'' (fullUrl example_env ''http-logs'')"
  by (simp add: fullUrl_def example_env_def)

text \<open>
  C7. The claim gives the caller's value precedence for every header present in both
  the base set and the caller's headers. The code does so for a plain object that
  spells the header as the base set does. For a \<open>Headers\<close> instance, whose entries
  carry lower-cased names, the caller's \<open>Content-Type\<close> does not replace the base
  value: the request is sent with both values, the base value first.
\<close>

theorem headers_instance_content_type_not_overridden:
  "headers_get
     (createHeaders env st (HeadersInstance (new_Headers [(''Content-Type'', ''text/plain'')])))
     ''Content-Type'' = Some ''application/json, text/plain''
   \<and> headers_get
       (createHeaders env st (PlainObject [(''Content-Type'', ''text/plain'')]))
       ''Content-Type'' = Some ''text/plain''"
  unfolding createHeaders_def HeadersInit.case entries_of_content_type
  by (simp add: spread_def new_Headers_def headers_append_def headers_get_def
      byte_lowercase_header_names Let_def)





text \<open>
  C10. For every \<open>POST\<close> or \<open>PUT\<close> whose body is the empty string, every \<open>fetch\<close> of
  the run, the first one and each retry, is given a config with no body; a run that
  is allowed a \<open>fetch\<close> makes one. The body is in the config exactly when it is
  truthy.
\<close>

theorem empty_body_is_omitted:
  "set (map cfg_body (sent_configs (run_trace
       (clients_post n env net st w url (BodyString []) hdrs)))) \<subseteq> {None}
   \<and> set (map cfg_body (sent_configs (run_trace
       (clients_put n env net st w url (BodyString []) hdrs)))) \<subseteq> {None}
   \<and> sent_configs (run_trace (clients_post (Suc n) env net st w url (BodyString []) hdrs)) \<noteq> []
   \<and> sent_configs (run_trace (clients_put (Suc n) env net st w url (BodyString []) hdrs)) \<noteq> []
   \<and> cfg_body (request_config env st opts) =
       (if body_truthy (body opts) then body opts else None)"
proof -
  have none: "set (map cfg_body (sent_configs (run_trace (request n env net st w url
        \<lparr>req_method = m, headers = hdrs, body = Some (BodyString [])\<rparr>)))) \<subseteq> {None}" for m
  proof
    fix x
    assume "x \<in> set (map cfg_body (sent_configs (run_trace (request n env net st w url
        \<lparr>req_method = m, headers = hdrs, body = Some (BodyString [])\<rparr>))))"
    then obtain cfg where c: "x = cfg_body cfg"
      "cfg \<in> set (sent_configs (run_trace (request n env net st w url
        \<lparr>req_method = m, headers = hdrs, body = Some (BodyString [])\<rparr>)))"
      by auto
    from sent_configs_request[OF c(2)] c(1) show "x \<in> {None}"
      by (auto simp: request_config_fields)
  qed
  have some: "sent_configs (run_trace (request (Suc n) env net st w url
        \<lparr>req_method = m, headers = hdrs, body = Some (BodyString [])\<rparr>)) \<noteq> []" for m
    using request_Suc_first_fetch[of n env net st w url
        "\<lparr>req_method = m, headers = hdrs, body = Some (BodyString [])\<rparr>"]
    by (auto simp del: request.simps)
  show ?thesis
    unfolding clients_post_def clients_put_def
    using none some by (simp add: request_config_fields del: request.simps)
qed

theorem empty_body_is_omitted_witness:
  "map cfg_body (sent_configs (run_trace run_post_empty)) = [None]"
proof -
  have "length (sent_configs (run_trace run_post_empty)) = 1"
    by code_simp
  then obtain cfg where c: "sent_configs (run_trace run_post_empty) = [cfg]"
    by (cases "sent_configs (run_trace run_post_empty)") auto
  from empty_body_is_omitted
    [where n = 1 and env = example_env and net = "net_const response_404"
       and st = example_state and w = 0 and url = "''users''" and hdrs = "PlainObject []"]
  have "set (map cfg_body (sent_configs (run_trace run_post_empty))) \<subseteq> {None}"
    unfolding run_post_empty_def by blast
  with c show ?thesis by simp
qed

end
